theory Spec2Isabelle
  imports Complex_Main "HOL-Library.AList"
begin

section \<open>MVO: the format parser and the two builders of generate_outputs.py\<close>

text \<open>
  The development follows \<^verbatim>\<open>src/generate_outputs.py\<close>. A \<^typ>\<open>char\<close> stands for one
  code point below 256 of a Python \<^verbatim>\<open>str\<close>; the input file is the sequence of its lines,
  as \<^verbatim>\<open>for line in file\<close> delivers them. Every exception of the source is a value of
  \<open>error\<close>, and a function that can raise returns \<open>error + 'a\<close> with \<open>Inl\<close> the exception.
\<close>

subsection \<open>Values\<close>

datatype error =
  ValueError | KeyError | IndexError | OverflowError | TypeError | AttributeError

text \<open>
  A Python float by its value: a finite float is a rational number; the three special
  values are kept apart, because \<^verbatim>\<open>int()\<close> raises on them. Which rational a decimal
  text denotes is decided by the builtin \<^verbatim>\<open>float\<close>, a parameter \<open>pf\<close> of the parser
  (\<open>None\<close> where \<^verbatim>\<open>float\<close> raises ValueError).
\<close>

datatype pyfloat = Finite rat | PosInf | NegInf | NaN

datatype val = VStr string | VFloat pyfloat | VTuple "pyfloat list"

text \<open>
  A dict in insertion order: storing under a present key replaces the value in place,
  storing under a new key appends, which is \<^const>\<open>AList.update\<close>. The empty dict,
  the only falsy one, is \<open>[]\<close>.
\<close>

type_synonym obj = "(string \<times> val) list"

definition then_do :: "error + 'a \<Rightarrow> ('a \<Rightarrow> error + 'b) \<Rightarrow> error + 'b" where
  "then_do m f = (case m of Inl e \<Rightarrow> Inl e | Inr x \<Rightarrow> f x)"

subsection \<open>String operations of the source\<close>

text \<open>The code points below 256 that \<^verbatim>\<open>str.strip()\<close> removes.\<close>

definition is_space :: "char \<Rightarrow> bool" where
  "is_space c \<longleftrightarrow> c \<in> {CHR 0x09, CHR 0x0A, CHR 0x0B, CHR 0x0C, CHR 0x0D,
     CHR 0x1C, CHR 0x1D, CHR 0x1E, CHR 0x1F, CHR 0x20, CHR 0x85, CHR 0xA0}"

definition py_strip :: "string \<Rightarrow> string" where
  "py_strip s = rev (dropWhile is_space (rev (dropWhile is_space s)))"

text \<open>
  \<open>split_first sep s\<close> cuts \<open>s\<close> at the leftmost occurrence of \<open>sep\<close>:
  \<^verbatim>\<open>s.split(sep, 1)\<close> has two elements exactly when it is \<open>Some\<close>.
\<close>

fun split_first :: "string \<Rightarrow> string \<Rightarrow> (string \<times> string) option" where
  "split_first sep [] = (if sep = [] then Some ([], []) else None)"
| "split_first sep (c # cs) =
     (if take (length sep) (c # cs) = sep then Some ([], drop (length sep) (c # cs))
      else map_option (\<lambda>(a, b). (c # a, b)) (split_first sep cs))"

text \<open>
  \<^verbatim>\<open>s.split(sep)\<close> for a non-empty separator, left to right without overlap. The source
  only splits at the constants \<^verbatim>\<open>'_'\<close> and \<^verbatim>\<open>', '\<close>; Python refuses an empty separator.
\<close>

function py_split :: "string \<Rightarrow> string \<Rightarrow> string list" where
  "py_split sep s =
     (if sep = [] then [s]
      else case split_first sep s of
             None \<Rightarrow> [s]
           | Some (a, b) \<Rightarrow> a # py_split sep b)"
  by pat_completeness auto
termination
proof (relation "measure (\<lambda>(sep, s). length s)")
  show "wf (measure (\<lambda>(sep :: string, s :: string). length s))" by simp
next
  fix sep s :: string and x2 :: "string \<times> string" and a b :: string
  assume sep: "sep \<noteq> []" and cut: "split_first sep s = Some x2" and x2: "(a, b) = x2"
  have "length b' < length t" if "split_first sep t = Some (a', b')" for t a' b'
    using that sep by (induction t arbitrary: a') (auto split: if_splits)
  then have "length b < length s" using cut x2 by metis
  then show "((sep, b), (sep, s)) \<in> measure (\<lambda>(sep, s). length s)" by simp
qed

declare py_split.simps [simp del]

text \<open>\<^verbatim>\<open>xs[i]\<close> for \<open>i \<ge> 0\<close>: IndexError out of range.\<close>

definition item :: "'a list \<Rightarrow> nat \<Rightarrow> error + 'a" where
  "item xs i = (if i < length xs then Inr (xs ! i) else Inl IndexError)"

text \<open>\<^verbatim>\<open>obj[key]\<close>: KeyError for a missing key.\<close>

definition getitem :: "obj \<Rightarrow> string \<Rightarrow> error + val" where
  "getitem ob k = (case map_of ob k of None \<Rightarrow> Inl KeyError | Some v \<Rightarrow> Inr v)"

text \<open>\<^verbatim>\<open>v.split('_')\<close>: only a str has the method.\<close>

definition split_underscore :: "val \<Rightarrow> error + string list" where
  "split_underscore v = (case v of VStr s \<Rightarrow> Inr (py_split ''_'' s) | _ \<Rightarrow> Inl AttributeError)"

subsection \<open>Note resolver\<close>

definition note_mappings :: "(string \<times> int) list" where
  "note_mappings =
     [(''C4'', 60), (''D4'', 62), (''E4'', 64), (''F4'', 65),
      (''G4'', 67), (''A4'', 69), (''B4'', 71),
      (''C5'', 72), (''D5'', 74), (''E5'', 76), (''F5'', 77)]"

text \<open>
  \<^verbatim>\<open>note_mappings.get(note, 60)\<close>. The source defines \<open>note_to_midi\<close> twice, with the same
  body.
\<close>

definition note_to_midi :: "string \<Rightarrow> int" where
  "note_to_midi note = (case map_of note_mappings note of Some p \<Rightarrow> p | None \<Rightarrow> 60)"

subsection \<open>Format parser\<close>

text \<open>
  The parser holds references to dicts: \<open>current_object\<close> and the elements of
  \<open>objects\<close> are addresses into a store of dicts, so that a dict reachable from both is
  one cell. \<^verbatim>\<open>{}\<close> allocates the next cell. In every state the parser reaches,
  the references point into the store (lemma \<open>parse_lines_wf\<close>).
\<close>

record pstate =
  heap :: "obj list"
  current_object :: nat
  objects :: "nat list"

definition init_pstate :: pstate where
  "init_pstate = \<lparr>heap = [[]], current_object = 0, objects = []\<rparr>"

text \<open>\<^verbatim>\<open>current_object[key] = v\<close>\<close>

definition setitem :: "string \<Rightarrow> val \<Rightarrow> pstate \<Rightarrow> pstate" where
  "setitem k v s =
     s\<lparr>heap := (heap s)[current_object s := AList.update k v (heap s ! current_object s)]\<rparr>"

text \<open>One iteration of the loop over the lines.\<close>

definition parse_line :: "(string \<Rightarrow> pyfloat option) \<Rightarrow> string \<Rightarrow> pstate \<Rightarrow> error + pstate" where
  "parse_line pf raw s =
     (let line = py_strip raw in
      if line = ''begin_object'' then
        Inr (s\<lparr>heap := heap s @ [[]], current_object := length (heap s)\<rparr>)
      else if line = ''end_object'' then
        (if heap s ! current_object s \<noteq> [] then
           Inr (s\<lparr>objects := objects s @ [current_object s]\<rparr>)
         else Inr s)
      else if line \<noteq> [] \<and> CHR '':'' \<in> set line then
        (case split_first '': '' line of
           None \<Rightarrow> Inl ValueError
         | Some (key, value) \<Rightarrow>
             if key = ''position'' then
               (case those (map pf (py_split '', '' value)) of
                  None \<Rightarrow> Inl ValueError
                | Some fs \<Rightarrow> Inr (setitem key (VTuple fs) s))
             else if key = ''size_duration'' then
               (case pf value of
                  None \<Rightarrow> Inl ValueError
                | Some f \<Rightarrow> Inr (setitem key (VFloat f) s))
             else Inr (setitem key (VStr value) s))
      else Inr s)"

fun parse_lines :: "(string \<Rightarrow> pyfloat option) \<Rightarrow> string list \<Rightarrow> pstate \<Rightarrow> error + pstate" where
  "parse_lines pf [] s = Inr s"
| "parse_lines pf (l # ls) s =
     (case parse_line pf l s of Inl e \<Rightarrow> Inl e | Inr s' \<Rightarrow> parse_lines pf ls s')"

text \<open>The returned list, read through the references.\<close>

definition records :: "pstate \<Rightarrow> obj list" where
  "records s = map (\<lambda>a. heap s ! a) (objects s)"

definition load_objects_from_mvo :: "(string \<Rightarrow> pyfloat option) \<Rightarrow> string list \<Rightarrow> error + obj list" where
  "load_objects_from_mvo pf ls = then_do (parse_lines pf ls init_pstate) (\<lambda>s. Inr (records s))"

subsection \<open>Score builder\<close>

text \<open>
  The calls made on the \<^verbatim>\<open>MIDIFile\<close> object, in order, with their arguments:
  \<^verbatim>\<open>addTrackName(track, time, name)\<close>, \<^verbatim>\<open>addTempo(track, time, tempo)\<close>,
  \<^verbatim>\<open>addProgramChange(track, channel, time, program)\<close> and
  \<^verbatim>\<open>addNote(track, channel, pitch, time, duration, volume)\<close>.
\<close>

datatype midi_event =
  TrackName nat nat string
| Tempo nat nat nat
| ProgramChange nat nat nat nat
| Note nat nat int nat int nat

text \<open>
  \<^verbatim>\<open>int(x)\<close> of a float truncates towards zero, and raises OverflowError on an infinity
  and ValueError on a NaN.
\<close>

definition int_of_float :: "pyfloat \<Rightarrow> error + int" where
  "int_of_float f =
     (case f of
        Finite r \<Rightarrow> Inr (if 0 \<le> r then \<lfloor>r\<rfloor> else \<lceil>r\<rceil>)
      | PosInf \<Rightarrow> Inl OverflowError
      | NegInf \<Rightarrow> Inl OverflowError
      | NaN \<Rightarrow> Inl ValueError)"

text \<open>
  \<^verbatim>\<open>int(obj["size_duration"])\<close>. The parser stores a float and nothing else under this
  key (lemma \<open>parse_lines_typed\<close> below), so the float case is the one that runs; a tuple
  is a TypeError, and the str case, which cannot arise, shares that branch.
\<close>

definition py_int :: "val \<Rightarrow> error + int" where
  "py_int v = (case v of VFloat f \<Rightarrow> int_of_float f | _ \<Rightarrow> Inl TypeError)"

text \<open>
  The loop state: \<open>track_details\<close>, \<open>current_track\<close> and the calls made on \<open>midi\<close> so
  far. (\<open>tempo_set\<close> is created and never used.)
\<close>

record midi_state =
  track_details :: "(string \<times> nat) list"
  current_track :: nat
  midi :: "midi_event list"

definition init_midi_state :: midi_state where
  "init_midi_state = \<lparr>track_details = [], current_track = 0, midi = []\<rparr>"

definition new_track :: "string \<Rightarrow> midi_state \<Rightarrow> midi_state" where
  "new_track instrument st =
     (if map_of (track_details st) instrument = None then
        \<lparr>track_details = AList.update instrument (current_track st) (track_details st),
         current_track = current_track st + 1,
         midi = midi st @ [TrackName (current_track st) 0 instrument,
                           Tempo (current_track st) 0 120]\<rparr>
      else st)"

definition midi_step :: "obj \<Rightarrow> midi_state \<Rightarrow> error + midi_state" where
  "midi_step ob st =
     then_do (getitem ob ''instrument_shape'') (\<lambda>v.
     then_do (split_underscore v) (\<lambda>parts.
     then_do (item parts 0) (\<lambda>instrument.
     let st1 = new_track instrument st in
     case map_of (track_details st1) instrument of
       None \<Rightarrow> Inl KeyError
     | Some track \<Rightarrow>
         then_do (getitem ob ''note_color'') (\<lambda>w.
         then_do (split_underscore w) (\<lambda>nparts.
         then_do (item nparts 0) (\<lambda>token.
         let note = note_to_midi token in
         then_do (getitem ob ''size_duration'') (\<lambda>d.
         then_do (py_int d) (\<lambda>duration.
         Inr (st1\<lparr>midi := midi st1 @ [ProgramChange track 0 0 1,
                                      Note track 0 note 0 duration 100]\<rparr>)))))))))"

fun midi_loop :: "obj list \<Rightarrow> midi_state \<Rightarrow> error + midi_state" where
  "midi_loop [] st = Inr st"
| "midi_loop (ob # obs) st =
     (case midi_step ob st of Inl e \<Rightarrow> Inl e | Inr st' \<Rightarrow> midi_loop obs st')"

text \<open>
  The document handed to \<^verbatim>\<open>writeFile\<close>: the track count given to \<^verbatim>\<open>MIDIFile\<close> and the
  calls. An exception in the loop leaves \<^verbatim>\<open>output.mid\<close> unwritten.
\<close>

definition build_midi :: "obj list \<Rightarrow> error + nat \<times> midi_event list" where
  "build_midi obs =
     then_do (midi_loop obs init_midi_state) (\<lambda>st. Inr (length obs, midi st))"

definition create_midi_from_mvo ::
  "(string \<Rightarrow> pyfloat option) \<Rightarrow> string list \<Rightarrow> error + nat \<times> midi_event list" where
  "create_midi_from_mvo pf ls = then_do (load_objects_from_mvo pf ls) build_midi"

subsection \<open>Scene builder\<close>

text \<open>
  A solid is the source object with the lengths set on it, the colour that
  \<^verbatim>\<open>GetColor3d\<close> returned and the position given to \<^verbatim>\<open>SetPosition\<close>. The named-colour
  table belongs to the rendering library: it is the parameter \<open>gc\<close>, which returns a
  colour or fails.
\<close>

datatype geometry = Sphere pyfloat | Cube pyfloat pyfloat pyfloat

record 'c solid =
  source :: geometry
  color :: 'c
  position :: "pyfloat \<times> pyfloat \<times> pyfloat"

text \<open>\<^verbatim>\<open>SetRadius(size)\<close> and the three \<^verbatim>\<open>Set?Length(size)\<close> take a number.\<close>

definition as_float :: "val \<Rightarrow> error + pyfloat" where
  "as_float v = (case v of VFloat f \<Rightarrow> Inr f | _ \<Rightarrow> Inl TypeError)"

text \<open>\<^verbatim>\<open>SetPosition(*obj["position"])\<close> takes three numbers.\<close>

definition as_position :: "val \<Rightarrow> error + pyfloat \<times> pyfloat \<times> pyfloat" where
  "as_position v = (case v of VTuple [x, y, z] \<Rightarrow> Inr (x, y, z) | _ \<Rightarrow> Inl TypeError)"

text \<open>One iteration: \<open>Inr None\<close> is \<^verbatim>\<open>continue\<close>, \<open>Inr (Some a)\<close> is \<^verbatim>\<open>AddActor(a)\<close>.\<close>

definition vtk_step :: "(string \<Rightarrow> error + 'c) \<Rightarrow> obj \<Rightarrow> error + 'c solid option" where
  "vtk_step gc ob =
     then_do (getitem ob ''instrument_shape'') (\<lambda>v.
     then_do (split_underscore v) (\<lambda>parts.
     then_do (item parts 1) (\<lambda>shape.
     then_do (getitem ob ''note_color'') (\<lambda>w.
     then_do (split_underscore w) (\<lambda>cparts.
     then_do (item cparts 1) (\<lambda>colour.
     then_do (getitem ob ''size_duration'') (\<lambda>size.
     then_do
       (if shape = ''sphere'' then
          then_do (as_float size) (\<lambda>r. Inr (Some (Sphere r)))
        else if shape = ''cube'' then
          then_do (as_float size) (\<lambda>r. Inr (Some (Cube r r r)))
        else Inr None)
       (\<lambda>src. case src of
          None \<Rightarrow> Inr None
        | Some g \<Rightarrow>
            then_do (gc colour) (\<lambda>rgb.
            then_do (getitem ob ''position'') (\<lambda>p.
            then_do (as_position p) (\<lambda>xyz.
            Inr (Some \<lparr>source = g, color = rgb, position = xyz\<rparr>))))))))))))"

fun vtk_loop :: "(string \<Rightarrow> error + 'c) \<Rightarrow> obj list \<Rightarrow> 'c solid list \<Rightarrow> error + 'c solid list" where
  "vtk_loop gc [] acc = Inr acc"
| "vtk_loop gc (ob # obs) acc =
     (case vtk_step gc ob of
        Inl e \<Rightarrow> Inl e
      | Inr None \<Rightarrow> vtk_loop gc obs acc
      | Inr (Some a) \<Rightarrow> vtk_loop gc obs (acc @ [a]))"

definition build_vtk :: "(string \<Rightarrow> error + 'c) \<Rightarrow> obj list \<Rightarrow> error + 'c solid list" where
  "build_vtk gc obs = vtk_loop gc obs []"

definition create_vtk_from_mvo ::
  "(string \<Rightarrow> pyfloat option) \<Rightarrow> (string \<Rightarrow> error + 'c) \<Rightarrow> string list \<Rightarrow> error + 'c solid list" where
  "create_vtk_from_mvo pf gc ls = then_do (load_objects_from_mvo pf ls) (build_vtk gc)"

section \<open>Notions used to state the properties\<close>

subsection \<open>Field lines and blocks of the input\<close>

text \<open>
  The entry a line stores when it has the form \<^verbatim>\<open>key: value\<close> and its value passes the
  coercion of its key; \<open>None\<close> for every other line.
\<close>

definition field_entry :: "(string \<Rightarrow> pyfloat option) \<Rightarrow> string \<Rightarrow> (string \<times> val) option" where
  "field_entry pf raw =
     (case split_first '': '' (py_strip raw) of
        None \<Rightarrow> None
      | Some (key, value) \<Rightarrow>
          if key = ''position'' then
            map_option (\<lambda>fs. (key, VTuple fs)) (those (map pf (py_split '', '' value)))
          else if key = ''size_duration'' then map_option (\<lambda>f. (key, VFloat f)) (pf value)
          else Some (key, VStr value))"

text \<open>
  A \<open>position\<close> line with a component that \<^verbatim>\<open>float\<close> refuses, or a \<open>size_duration\<close>
  line with such a value.
\<close>

definition malformed_field :: "(string \<Rightarrow> pyfloat option) \<Rightarrow> string \<Rightarrow> bool" where
  "malformed_field pf raw =
     (case split_first '': '' (py_strip raw) of
        None \<Rightarrow> False
      | Some (key, value) \<Rightarrow>
          (key = ''position'' \<and> (\<exists>c \<in> set (py_split '', '' value). pf c = None))
          \<or> (key = ''size_duration'' \<and> pf value = None))"

text \<open>
  A block: the line \<open>b\<close> that opens it, its body and the line \<open>e\<close> that closes it. The
  record of a body is what its field lines store into an empty dict, in order.
\<close>

definition mvo_block :: "string \<Rightarrow> string \<Rightarrow> string list \<Rightarrow> string list" where
  "mvo_block b e body = b # body @ [e]"

definition store_field :: "(string \<Rightarrow> pyfloat option) \<Rightarrow> string \<Rightarrow> obj \<Rightarrow> obj" where
  "store_field pf raw ob =
     (case field_entry pf raw of None \<Rightarrow> ob | Some (k, v) \<Rightarrow> AList.update k v ob)"

definition block_record :: "(string \<Rightarrow> pyfloat option) \<Rightarrow> string list \<Rightarrow> obj" where
  "block_record pf body = fold (store_field pf) body []"

text \<open>The references of a parser state point into its store.\<close>

definition wf_pstate :: "pstate \<Rightarrow> bool" where
  "wf_pstate s \<longleftrightarrow>
     current_object s < length (heap s) \<and> (\<forall>a \<in> set (objects s). a < length (heap s))"

text \<open>The types the parser's coercions give the values of a record.\<close>

definition typed_entry :: "string \<times> val \<Rightarrow> bool" where
  "typed_entry kv =
     (case kv of
        (k, VTuple fs) \<Rightarrow> k = ''position''
      | (k, VFloat f) \<Rightarrow> k = ''size_duration''
      | (k, VStr t) \<Rightarrow> k \<noteq> ''position'' \<and> k \<noteq> ''size_duration'')"

definition typed_obj :: "obj \<Rightarrow> bool" where
  "typed_obj ob \<longleftrightarrow> list_all typed_entry ob"

text \<open>Every dict of the store has the types the coercions give.\<close>

definition all_typed :: "pstate \<Rightarrow> bool" where
  "all_typed s \<longleftrightarrow> list_all typed_obj (heap s)"

subsection \<open>The parser as the specification words it\<close>

text \<open>
  Section 4.1 of the specification, read literally: an accumulator and a result sequence
  of records; \<open>begin_object\<close> resets the accumulator; \<open>end_object\<close> appends a copy of a
  non-empty accumulator and resets it; a line with \<^verbatim>\<open>': '\<close> is stored with the coercion
  of its key; every other line is ignored. It is compared with the source's parser.
\<close>

type_synonym spec_pstate = "obj \<times> obj list"

definition spec_parse_line ::
  "(string \<Rightarrow> pyfloat option) \<Rightarrow> string \<Rightarrow> spec_pstate \<Rightarrow> error + spec_pstate" where
  "spec_parse_line pf raw st =
     (case st of (acc, out) \<Rightarrow>
      let line = py_strip raw in
      if line = ''begin_object'' then Inr ([], out)
      else if line = ''end_object'' then Inr ([], if acc \<noteq> [] then out @ [acc] else out)
      else
        (case split_first '': '' line of
           None \<Rightarrow> Inr (acc, out)
         | Some (key, value) \<Rightarrow>
             if key = ''position'' then
               (case those (map pf (py_split '', '' value)) of
                  None \<Rightarrow> Inl ValueError
                | Some fs \<Rightarrow> Inr (AList.update key (VTuple fs) acc, out))
             else if key = ''size_duration'' then
               (case pf value of
                  None \<Rightarrow> Inl ValueError
                | Some f \<Rightarrow> Inr (AList.update key (VFloat f) acc, out))
             else Inr (AList.update key (VStr value) acc, out)))"

fun spec_parse_lines ::
  "(string \<Rightarrow> pyfloat option) \<Rightarrow> string list \<Rightarrow> spec_pstate \<Rightarrow> error + spec_pstate" where
  "spec_parse_lines pf [] st = Inr st"
| "spec_parse_lines pf (l # ls) st =
     (case spec_parse_line pf l st of Inl e \<Rightarrow> Inl e | Inr st' \<Rightarrow> spec_parse_lines pf ls st')"

definition spec_load_objects :: "(string \<Rightarrow> pyfloat option) \<Rightarrow> string list \<Rightarrow> error + obj list" where
  "spec_load_objects pf ls = then_do (spec_parse_lines pf ls ([], [])) (\<lambda>st. Inr (snd st))"

subsection \<open>Records as the score builder reads them\<close>

text \<open>The part of a compound token before its first underscore.\<close>

definition underscore_prefix :: "string \<Rightarrow> string" where
  "underscore_prefix s = takeWhile (\<lambda>c. c \<noteq> CHR ''_'') s"



text \<open>Truncation towards zero.\<close>

definition truncated :: "rat \<Rightarrow> int" where
  "truncated r = (if 0 \<le> r then \<lfloor>r\<rfloor> else \<lceil>r\<rceil>)"





text \<open>A record without one of the three fields the score builder reads.\<close>

definition lacks_required :: "obj \<Rightarrow> bool" where
  "lacks_required ob \<longleftrightarrow>
     map_of ob ''instrument_shape'' = None \<or> map_of ob ''note_color'' = None
     \<or> map_of ob ''size_duration'' = None"

text \<open>
  The distinct elements of a list in the order of their first occurrence, and the
  position of an element in a list.
\<close>

definition first_seen :: "'a list \<Rightarrow> 'a list" where
  "first_seen xs = rev (remdups (rev xs))"








subsection \<open>Records as the scene builder reads them\<close>












subsection \<open>Sample collaborators\<close>

text \<open>
  A fragment of the builtin \<^verbatim>\<open>float\<close>, enough to run the examples: the texts it accepts
  with the exact values of the floats Python returns for them.
\<close>

definition sample_float :: "string \<Rightarrow> pyfloat option" where
  "sample_float t =
     map_of [(''0'', Finite 0), (''1'', Finite 1), (''2.0'', Finite 2), (''1.5'', Finite (3 / 2)),
             (''2.9'', Finite (6530219459687219 / 2251799813685248)),
             (''1.9'', Finite (4278419646001971 / 2251799813685248)),
             (''0.1'', Finite (3602879701896397 / 36028797018963968)),
             (''inf'', PosInf)] t"

text \<open>
  A fragment of the named-colour table of the rendering library; the lookup of a name
  outside the fragment fails.
\<close>

definition sample_colors :: "string \<Rightarrow> error + rat \<times> rat \<times> rat" where
  "sample_colors name =
     (case map_of [(''red'', (1, 0, 0)), (''blue'', (0, 0, 1))] name of
        Some rgb \<Rightarrow> Inr rgb
      | None \<Rightarrow> Inl KeyError)"

subsection \<open>Standard pitch numbers\<close>

text \<open>
  The MIDI convention the table is compared with: twelve semitones to the octave, octave
  \<open>-1\<close> starting at 0, so that a note of octave \<open>k\<close> has number \<open>12 * (k + 1)\<close> plus the
  semitone offset of its letter within the C major scale.
\<close>

definition semitone :: "char \<Rightarrow> int option" where
  "semitone c =
     map_of [(CHR ''C'', 0), (CHR ''D'', 2), (CHR ''E'', 4), (CHR ''F'', 5),
             (CHR ''G'', 7), (CHR ''A'', 9), (CHR ''B'', 11)] c"

definition octave :: "char \<Rightarrow> int option" where
  "octave c =
     map_of [(CHR ''0'', 0), (CHR ''1'', 1), (CHR ''2'', 2), (CHR ''3'', 3), (CHR ''4'', 4),
             (CHR ''5'', 5), (CHR ''6'', 6), (CHR ''7'', 7), (CHR ''8'', 8), (CHR ''9'', 9)] c"

definition standard_pitch :: "string \<Rightarrow> int option" where
  "standard_pitch name =
     (case name of
        [l, d] \<Rightarrow>
          (case (semitone l, octave d) of
             (Some st, Some k) \<Rightarrow> Some (12 * (k + 1) + st)
           | _ \<Rightarrow> None)
      | _ \<Rightarrow> None)"

section \<open>Properties of the format parser\<close>

lemma split_first_Some_sub:
  "split_first sep s = Some (a, b) \<Longrightarrow> s = a @ sep @ b"
proof (induction s arbitrary: a)
  case Nil
  then show ?case by (simp split: if_splits)
next
  case (Cons c cs)
  show ?case
  proof (cases "take (length sep) (c # cs) = sep")
    case True
    then have "a = []" "b = drop (length sep) (c # cs)" using Cons.prems by simp_all
    then show ?thesis using True append_take_drop_id [of "length sep" "c # cs"] by simp
  next
    case False
    then obtain a' where "split_first sep cs = Some (a', b)" "a = c # a'"
      using Cons.prems by auto
    then show ?thesis using Cons.IH by simp
  qed
qed

lemma split_first_colon:
  assumes "split_first '': '' s = Some (a, b)"
  shows "s \<noteq> [] \<and> CHR '':'' \<in> set s"
  using split_first_Some_sub [OF assms] by auto

lemma split_first_begin [simp]: "split_first '': '' ''begin_object'' = None"
  by simp

lemma split_first_end [simp]: "split_first '': '' ''end_object'' = None"
  by simp

lemma those_map_None:
  "those (map f xs) = None \<longleftrightarrow> (\<exists>x \<in> set xs. f x = None)"
  by (induction xs) (auto split: option.splits)

lemma parse_line_field:
  assumes "field_entry pf raw = Some (k, v)"
  shows "parse_line pf raw s = Inr (setitem k v s)"
proof -
  obtain key val where sp: "split_first '': '' (py_strip raw) = Some (key, val)"
    using assms by (auto simp: field_entry_def split: option.splits)
  have ne: "py_strip raw \<noteq> ''begin_object''" "py_strip raw \<noteq> ''end_object''"
    using sp by auto
  show ?thesis
    using assms sp ne split_first_colon [OF sp]
    by (auto simp: field_entry_def parse_line_def Let_def split: option.splits if_splits)
qed

lemma parse_line_malformed:
  assumes "malformed_field pf raw"
  shows "parse_line pf raw s = Inl ValueError"
proof -
  obtain key val where sp: "split_first '': '' (py_strip raw) = Some (key, val)"
    using assms by (auto simp: malformed_field_def split: option.splits)
  have ne: "py_strip raw \<noteq> ''begin_object''" "py_strip raw \<noteq> ''end_object''"
    using sp by auto
  have guard: "py_strip raw \<noteq> [] \<and> CHR '':'' \<in> set (py_strip raw)"
    using split_first_colon [OF sp] .
  from assms sp consider
      (pos) "key = ''position''" "those (map pf (py_split '', '' val)) = None"
    | (size) "key = ''size_duration''" "pf val = None"
    by (auto simp: malformed_field_def those_map_None)
  then show ?thesis
  proof cases
    case pos
    then show ?thesis using sp ne guard by (simp add: parse_line_def)
  next
    case size
    then show ?thesis using sp ne guard by (simp add: parse_line_def)
  qed
qed

lemma parse_line_error: "parse_line pf raw s = Inl e \<Longrightarrow> e = ValueError"
  by (auto simp: parse_line_def Let_def split: option.splits if_splits)

lemma parse_lines_error: "parse_lines pf ls s = Inl e \<Longrightarrow> e = ValueError"
  by (induction ls arbitrary: s) (auto split: sum.splits dest: parse_line_error)

lemma parse_lines_malformed:
  "l \<in> set ls \<Longrightarrow> malformed_field pf l \<Longrightarrow> parse_lines pf ls s = Inl ValueError"
proof (induction ls arbitrary: s)
  case Nil
  then show ?case by simp
next
  case (Cons x xs)
  show ?case
  proof (cases "parse_line pf x s")
    case (Inl e)
    then show ?thesis using parse_line_error [OF Inl] by simp
  next
    case (Inr s')
    then have "x \<noteq> l" using Cons.prems(2) parse_line_malformed [of pf l s] by auto
    then have "l \<in> set xs" using Cons.prems(1) by simp
    then show ?thesis using Cons.IH [of s'] Cons.prems(2) Inr by simp
  qed
qed

lemma parse_lines_append:
  "parse_lines pf (xs @ ys) s = then_do (parse_lines pf xs s) (parse_lines pf ys)"
  by (induction xs arbitrary: s) (auto simp: then_do_def split: sum.splits)

lemma wf_init: "wf_pstate init_pstate"
  by (simp add: wf_pstate_def init_pstate_def)

lemma parse_line_begin:
  "py_strip raw = ''begin_object'' \<Longrightarrow>
   parse_line pf raw s = Inr (s\<lparr>heap := heap s @ [[]], current_object := length (heap s)\<rparr>)"
  by (simp add: parse_line_def)

lemma parse_line_end:
  "py_strip raw = ''end_object'' \<Longrightarrow>
   parse_line pf raw s =
     Inr (if heap s ! current_object s \<noteq> [] then s\<lparr>objects := objects s @ [current_object s]\<rparr>
          else s)"
  by (simp add: parse_line_def)

text \<open>What one line can do to the state.\<close>

lemma parse_line_cases:
  assumes "parse_line pf raw s = Inr s'"
  shows "s' = s\<lparr>heap := heap s @ [[]], current_object := length (heap s)\<rparr>
       \<or> s' = s\<lparr>objects := objects s @ [current_object s]\<rparr>
       \<or> s' = s
       \<or> (\<exists>k v. s' = setitem k v s)"
proof -
  have st: "\<exists>k' v'. setitem k v s = setitem k' v' s" for k v
    by blast
  show ?thesis
    using assms st
    by (auto simp: parse_line_def Let_def split: if_splits option.splits prod.splits)
qed

lemma parse_line_frame:
  assumes "parse_line pf raw s = Inr s'" and "wf_pstate s" and "n \<le> current_object s"
  shows "wf_pstate s' \<and> n \<le> current_object s' \<and> length (heap s) \<le> length (heap s')
       \<and> (\<forall>a < n. heap s' ! a = heap s ! a)
       \<and> take (length (objects s)) (objects s') = objects s"
  using parse_line_cases [OF assms(1)] assms(2,3)
  by (auto simp: wf_pstate_def setitem_def nth_append less_Suc_eq)

lemma parse_lines_frame:
  assumes "parse_lines pf ls s = Inr s'" and "wf_pstate s" and "n \<le> current_object s"
  shows "wf_pstate s' \<and> n \<le> current_object s' \<and> length (heap s) \<le> length (heap s')
       \<and> (\<forall>a < n. heap s' ! a = heap s ! a)
       \<and> take (length (objects s)) (objects s') = objects s"
  using assms
proof (induction ls arbitrary: s)
  case Nil
  then show ?case by simp
next
  case (Cons l ls)
  then obtain t where t: "parse_line pf l s = Inr t" and rest: "parse_lines pf ls t = Inr s'"
    by (auto split: sum.splits)
  note f = parse_line_frame [OF t Cons.prems(2,3)]
  note g = Cons.IH [OF rest] 
  have g': "wf_pstate s' \<and> n \<le> current_object s' \<and> length (heap t) \<le> length (heap s')
       \<and> (\<forall>a < n. heap s' ! a = heap t ! a)
       \<and> take (length (objects t)) (objects s') = objects t"
    using g f by blast
  have len: "length (objects s) \<le> length (objects t)"
  proof -
    have "length (take (length (objects s)) (objects t)) = length (objects s)"
      using f by simp
    then show ?thesis by simp
  qed
  have "take (length (objects s)) (objects s') = take (length (objects s)) (take (length (objects t)) (objects s'))"
    using len by (simp add: min_def)
  also have "\<dots> = objects s" using g' f by simp
  finally show ?case using f g' by auto
qed

lemma parse_lines_wf:
  "parse_lines pf ls init_pstate = Inr s \<Longrightarrow> wf_pstate s"
  using parse_lines_frame [of pf ls init_pstate s 0] wf_init by simp


lemma fields_run:
  assumes "\<forall>l \<in> set body. field_entry pf l \<noteq> None" and "current_object s < length (heap s)"
  shows "parse_lines pf body s =
     Inr (s\<lparr>heap := (heap s)[current_object s :=
                 fold (store_field pf) body (heap s ! current_object s)]\<rparr>)"
  using assms
proof (induction body arbitrary: s)
  case Nil
  then show ?case by simp
next
  case (Cons l ls)
  then obtain k v where kv: "field_entry pf l = Some (k, v)" by auto
  let ?t = "setitem k v s"
  have step: "parse_line pf l s = Inr ?t" using parse_line_field [OF kv] .
  have cur: "current_object ?t < length (heap ?t)"
    using Cons.prems(2) by (simp add: setitem_def)
  have rest: "\<forall>l \<in> set ls. field_entry pf l \<noteq> None" using Cons.prems(1) by simp
  have "parse_lines pf (l # ls) s = parse_lines pf ls ?t" using step by simp
  also have "\<dots> = Inr (?t\<lparr>heap := (heap ?t)[current_object ?t :=
                 fold (store_field pf) ls (heap ?t ! current_object ?t)]\<rparr>)"
    using Cons.IH [OF rest cur] .
  also have "\<dots> = Inr (s\<lparr>heap := (heap s)[current_object s :=
                 fold (store_field pf) (l # ls) (heap s ! current_object s)]\<rparr>)"
    using Cons.prems(2) kv by (simp add: setitem_def store_field_def)
  finally show ?case .
qed

lemma store_field_nonempty:
  "field_entry pf l \<noteq> None \<Longrightarrow> store_field pf l ob \<noteq> []"
  by (auto simp: store_field_def)

lemma fold_store_nonempty:
  "\<forall>l \<in> set body. field_entry pf l \<noteq> None \<Longrightarrow> ob \<noteq> [] \<or> body \<noteq> [] \<Longrightarrow>
   fold (store_field pf) body ob \<noteq> []"
  by (induction body arbitrary: ob) (auto simp: store_field_nonempty)

lemma block_record_empty:
  "\<forall>l \<in> set body. field_entry pf l \<noteq> None \<Longrightarrow> block_record pf body = [] \<longleftrightarrow> body = []"
  using fold_store_nonempty [of body pf "[]"] by (auto simp: block_record_def)

lemma open_block_run:
  assumes "py_strip b = ''begin_object''"
    and "\<forall>l \<in> set body. field_entry pf l \<noteq> None"
  shows "parse_lines pf (b # body) s =
     Inr (s\<lparr>heap := heap s @ [block_record pf body], current_object := length (heap s)\<rparr>)"
proof -
  let ?t = "s\<lparr>heap := heap s @ [[]], current_object := length (heap s)\<rparr>"
  have "parse_lines pf (b # body) s = parse_lines pf body ?t"
    using parse_line_begin [OF assms(1)] by simp
  also have "\<dots> = Inr (?t\<lparr>heap := (heap ?t)[current_object ?t :=
                 fold (store_field pf) body (heap ?t ! current_object ?t)]\<rparr>)"
    by (rule fields_run [OF assms(2)]) simp
  also have "\<dots> = Inr (s\<lparr>heap := heap s @ [block_record pf body],
                            current_object := length (heap s)\<rparr>)"
    by (simp add: block_record_def)
  finally show ?thesis .
qed

lemma block_run:
  assumes "py_strip b = ''begin_object''" and "py_strip e = ''end_object''"
    and "\<forall>l \<in> set body. field_entry pf l \<noteq> None"
  shows "parse_lines pf (mvo_block b e body) s =
     Inr (s\<lparr>heap := heap s @ [block_record pf body], current_object := length (heap s),
            objects := objects s @ (if body = [] then [] else [length (heap s)])\<rparr>)"
proof -
  let ?t = "s\<lparr>heap := heap s @ [block_record pf body], current_object := length (heap s)\<rparr>"
  have "parse_lines pf (mvo_block b e body) s = then_do (parse_lines pf (b # body) s) (parse_lines pf [e])"
    unfolding mvo_block_def using parse_lines_append [of pf "b # body" "[e]" s] by simp
  also have "\<dots> = parse_lines pf [e] ?t"
    using open_block_run [OF assms(1,3)] by (simp add: then_do_def)
  also have "\<dots> = Inr (s\<lparr>heap := heap s @ [block_record pf body], current_object := length (heap s),
            objects := objects s @ (if body = [] then [] else [length (heap s)])\<rparr>)"
    using parse_line_end [OF assms(2), of pf ?t] block_record_empty [OF assms(3)]
    by simp
  finally show ?thesis .
qed

lemma records_extend:
  assumes "wf_pstate s"
  shows "records (s\<lparr>heap := heap s @ [r], current_object := c,
                   objects := objects s @ (if emit then [length (heap s)] else [])\<rparr>)
         = records s @ (if emit then [r] else [])"
  using assms by (auto simp: records_def wf_pstate_def nth_append)

lemma blocks_run:
  assumes "py_strip b = ''begin_object''" and "py_strip e = ''end_object''"
    and "\<forall>body \<in> set bodies. \<forall>l \<in> set body. field_entry pf l \<noteq> None"
    and "wf_pstate s"
  shows "\<exists>s'. parse_lines pf (concat (map (mvo_block b e) bodies)) s = Inr s'
            \<and> wf_pstate s'
            \<and> records s' = records s @ map (block_record pf) (filter (\<lambda>body. body \<noteq> []) bodies)"
  using assms(3,4)
proof (induction bodies arbitrary: s)
  case Nil
  then show ?case by simp
next
  case (Cons body bodies)
  let ?t = "s\<lparr>heap := heap s @ [block_record pf body], current_object := length (heap s),
            objects := objects s @ (if body \<noteq> [] then [length (heap s)] else [])\<rparr>"
  have ok: "\<forall>l \<in> set body. field_entry pf l \<noteq> None" using Cons.prems(1) by simp
  have run: "parse_lines pf (mvo_block b e body) s = Inr ?t"
    using block_run [OF assms(1,2) ok, of s] by simp
  have wf: "wf_pstate ?t" using Cons.prems(2) by (auto simp: wf_pstate_def)
  have rec: "records ?t = records s @ (if body \<noteq> [] then [block_record pf body] else [])"
    using records_extend [OF Cons.prems(2)] .
  have rest: "\<forall>body \<in> set bodies. \<forall>l \<in> set body. field_entry pf l \<noteq> None"
    using Cons.prems(1) by simp
  obtain s' where s': "parse_lines pf (concat (map (mvo_block b e) bodies)) ?t = Inr s'"
      "wf_pstate s'"
      "records s' = records ?t @ map (block_record pf) (filter (\<lambda>body. body \<noteq> []) bodies)"
    using Cons.IH [OF rest wf] by blast
  have "parse_lines pf (concat (map (mvo_block b e) (body # bodies))) s = Inr s'"
    using run s'(1) by (simp add: parse_lines_append then_do_def)
  moreover have "records s' =
      records s @ map (block_record pf) (filter (\<lambda>body. body \<noteq> []) (body # bodies))"
    using s'(3) rec by simp
  ultimately show ?case using s'(2) by blast
qed

lemma open_block_records:
  assumes "wf_pstate s"
  shows "records (s\<lparr>heap := heap s @ [r], current_object := c\<rparr>) = records s"
  using assms by (auto simp: records_def wf_pstate_def nth_append)

lemma records_frozen_after_begin:
  assumes "wf_pstate s" and "py_strip b = ''begin_object''"
    and "parse_lines pf (b # ls) s = Inr s'"
  shows "take (length (records s)) (records s') = records s"
proof -
  let ?t = "s\<lparr>heap := heap s @ [[]], current_object := length (heap s)\<rparr>"
  have run: "parse_lines pf ls ?t = Inr s'"
    using assms(3) parse_line_begin [OF assms(2), of pf s] by simp
  have wf: "wf_pstate ?t" using assms(1) by (auto simp: wf_pstate_def)
  have fr: "(\<forall>a < length (heap s). heap s' ! a = heap ?t ! a)
          \<and> take (length (objects ?t)) (objects s') = objects ?t"
    using parse_lines_frame [OF run wf, of "length (heap s)"] by simp
  have old: "heap s' ! a = heap s ! a" if "a \<in> set (objects s)" for a
    using that fr assms(1) by (auto simp: wf_pstate_def nth_append)
  have "take (length (records s)) (records s') = map (\<lambda>a. heap s' ! a) (take (length (objects s)) (objects s'))"
    by (simp add: records_def take_map)
  also have "\<dots> = map (\<lambda>a. heap s' ! a) (objects s)" using fr by simp
  also have "\<dots> = records s" using old by (simp add: records_def)
  finally show ?thesis .
qed

lemma list_all_update:
  "list_all P al \<Longrightarrow> P (k, v) \<Longrightarrow> list_all P (AList.update k v al)"
  by (induction al) auto

lemma parse_line_cases_typed:
  assumes "parse_line pf raw s = Inr s'"
  shows "s' = s\<lparr>heap := heap s @ [[]], current_object := length (heap s)\<rparr>
       \<or> s' = s\<lparr>objects := objects s @ [current_object s]\<rparr>
       \<or> s' = s
       \<or> (\<exists>k v. s' = setitem k v s \<and> typed_entry (k, v))"
proof -
  have st: "\<exists>k' v'. setitem k v s = setitem k' v' s \<and> typed_entry (k', v')" if "typed_entry (k, v)" for k v
    using that by blast
  show ?thesis
    using assms st
    by (auto simp: parse_line_def Let_def typed_entry_def split: if_splits option.splits prod.splits)
qed

lemma parse_line_typed:
  assumes "parse_line pf raw s = Inr s'" and "wf_pstate s" and "all_typed s"
  shows "all_typed s'"
proof -
  have cell: "typed_obj (heap s ! current_object s)"
    using assms(2,3) by (simp add: wf_pstate_def all_typed_def list_all_length)
  have upd: "all_typed (setitem k v s)" if "typed_entry (k, v)" for k v
  proof -
    have "typed_obj (AList.update k v (heap s ! current_object s))"
      using cell that by (simp add: typed_obj_def list_all_update)
    then show ?thesis
      using assms(3) set_update_subset_insert [of "heap s" "current_object s"]
      by (auto simp: all_typed_def setitem_def list_all_iff)
  qed
  show ?thesis
    using parse_line_cases_typed [OF assms(1)] assms(3) upd
    by (auto simp: all_typed_def typed_obj_def)
qed

lemma parse_lines_typed_state:
  assumes "parse_lines pf ls s = Inr s'" and "wf_pstate s" and "all_typed s"
  shows "all_typed s'"
  using assms
proof (induction ls arbitrary: s)
  case Nil
  then show ?case by simp
next
  case (Cons l ls)
  then obtain t where t: "parse_line pf l s = Inr t" and rest: "parse_lines pf ls t = Inr s'"
    by (auto split: sum.splits)
  have "wf_pstate t" using parse_line_frame [OF t Cons.prems(2), of 0] by simp
  moreover have "all_typed t" using parse_line_typed [OF t Cons.prems(2,3)] .
  ultimately show ?case using Cons.IH [OF rest] by simp
qed

lemma parse_lines_typed:
  assumes "load_objects_from_mvo pf ls = Inr obs" and "ob \<in> set obs"
  shows "typed_obj ob"
proof -
  obtain s where s: "parse_lines pf ls init_pstate = Inr s" and obs: "obs = records s"
    using assms(1) by (auto simp: load_objects_from_mvo_def then_do_def split: sum.splits)
  have wf: "wf_pstate s" using parse_lines_wf [OF s] .
  have "all_typed init_pstate" by (simp add: all_typed_def init_pstate_def typed_obj_def)
  then have "all_typed s" using parse_lines_typed_state [OF s wf_init] by simp
  then show ?thesis
    using assms(2) obs wf by (auto simp: records_def all_typed_def wf_pstate_def list_all_length)
qed

lemma typed_obj_str:
  assumes "typed_obj ob" and "map_of ob k = Some v" and "k \<noteq> ''position''" and "k \<noteq> ''size_duration''"
  shows "\<exists>t. v = VStr t"
proof -
  have "(k, v) \<in> set ob" using assms(2) by (rule map_of_SomeD)
  then have "typed_entry (k, v)" using assms(1) by (auto simp: typed_obj_def list_all_iff)
  then show ?thesis using assms(3,4) by (cases v) (auto simp: typed_entry_def)
qed

text \<open>
  C1, as the code has it: on a line \<open>end_object\<close> with a non-empty accumulator, the
  reference to the accumulator itself is appended to the result (no copy is made) and
  the accumulator stays in place (no reset). So a second \<open>end_object\<close> appends the same
  reference again, and a field line that follows is stored into the dict already in the
  result. Only the next \<open>begin_object\<close> allocates a new accumulator: from then on no line
  alters the record emitted, or any emitted before it.
\<close>

theorem end_object_emits_reference:
  assumes "parse_lines pf pre init_pstate = Inr s"
    and "py_strip e = ''end_object''"
    and "heap s ! current_object s \<noteq> []"
  shows "parse_lines pf (pre @ [e]) init_pstate
           = Inr (s\<lparr>objects := objects s @ [current_object s]\<rparr>)
       \<and> parse_lines pf (pre @ [e, e]) init_pstate
           = Inr (s\<lparr>objects := objects s @ [current_object s, current_object s]\<rparr>)
       \<and> (field_entry pf l = Some (k, v) \<longrightarrow>
            parse_lines pf (pre @ [e, l]) init_pstate
              = Inr (setitem k v (s\<lparr>objects := objects s @ [current_object s]\<rparr>)))
       \<and> (py_strip b = ''begin_object'' \<and> parse_lines pf (pre @ e # b # ls) init_pstate = Inr s' \<longrightarrow>
            take (Suc (length (records s))) (records s')
              = records s @ [heap s ! current_object s])"
proof -
  let ?t = "s\<lparr>objects := objects s @ [current_object s]\<rparr>"
  have wf: "wf_pstate s" using parse_lines_wf [OF assms(1)] .
  have step: "parse_line pf e s = Inr ?t"
    using parse_line_end [OF assms(2), of pf s] assms(3) by simp
  have one: "parse_lines pf (pre @ [e]) init_pstate = Inr ?t"
    using assms(1) step by (simp add: parse_lines_append then_do_def)
  have step2: "parse_line pf e ?t = Inr (s\<lparr>objects := objects s @ [current_object s, current_object s]\<rparr>)"
    using parse_line_end [OF assms(2), of pf ?t] assms(3) by simp
  have two: "parse_lines pf (pre @ [e, e]) init_pstate
           = Inr (s\<lparr>objects := objects s @ [current_object s, current_object s]\<rparr>)"
    using assms(1) step step2 by (simp add: parse_lines_append then_do_def)
  have three: "parse_lines pf (pre @ [e, l]) init_pstate = Inr (setitem k v ?t)"
    if "field_entry pf l = Some (k, v)"
    using assms(1) step parse_line_field [OF that, of ?t]
    by (simp add: parse_lines_append then_do_def)
  have four: "take (Suc (length (records s))) (records s') = records s @ [heap s ! current_object s]"
    if b: "py_strip b = ''begin_object''"
      and run: "parse_lines pf (pre @ e # b # ls) init_pstate = Inr s'"
  proof -
    have wft: "wf_pstate ?t" using wf by (auto simp: wf_pstate_def)
    have "parse_lines pf (b # ls) ?t = Inr s'"
      using run assms(1) step by (simp add: parse_lines_append then_do_def)
    from records_frozen_after_begin [OF wft b this]
    show ?thesis by (simp add: records_def)
  qed
  show ?thesis using one two three four by blast
qed

theorem end_object_emits_reference_witness:
  "parse_lines sample_float [''begin_object'', ''a: 1'', ''end_object'', ''b: 2''] init_pstate
     = Inr \<lparr>heap = [[], [(''a'', VStr ''1''), (''b'', VStr ''2'')]], current_object = 1, objects = [1]\<rparr>
   \<and> take 1 (records \<lparr>heap = [[], [(''a'', VStr ''1'')], [(''c'', VStr ''3'')]],
                      current_object = 2, objects = [1, 2]\<rparr>) = [[(''a'', VStr ''1'')]]"
proof -
  let ?pre = "[''begin_object'', ''a: 1'']"
  let ?s = "\<lparr>heap = [[], [(''a'', VStr ''1'')]], current_object = 1, objects = []\<rparr>"
  let ?s' = "\<lparr>heap = [[], [(''a'', VStr ''1'')], [(''c'', VStr ''3'')]],
                      current_object = 2, objects = [1, 2]\<rparr>"
  have pre: "parse_lines sample_float ?pre init_pstate = Inr ?s"
    by (simp add: parse_line_def py_strip_def is_space_def init_pstate_def setitem_def)
  have e: "py_strip ''end_object'' = ''end_object''" by (simp add: py_strip_def is_space_def)
  have ne: "heap ?s ! current_object ?s \<noteq> []" by simp
  have l: "field_entry sample_float ''b: 2'' = Some (''b'', VStr ''2'')"
    by (simp add: field_entry_def py_strip_def is_space_def)
  have b: "py_strip ''begin_object'' = ''begin_object''" by (simp add: py_strip_def is_space_def)
  have run: "parse_lines sample_float (?pre @ ''end_object'' # ''begin_object'' # [''c: 3'', ''end_object'']) init_pstate = Inr ?s'"
    by (simp add: parse_line_def py_strip_def is_space_def init_pstate_def setitem_def)
  show ?thesis
    using end_object_emits_reference [OF pre e ne, of "''b: 2''" "''b''" "VStr ''2''" "''begin_object''"
        "[''c: 3'', ''end_object'']" ?s'] l b run
    by (simp add: setitem_def records_def)
qed

text \<open>
  C1, as stated, fails. A parser that appends a copy and resets returns the record
  \<open>{a: 1}\<close> for \<open>begin_object\<close>, \<open>a: 1\<close>, \<open>end_object\<close>, \<open>b: 2\<close>, and returns it once when
  \<open>end_object\<close> is repeated. The source returns \<open>{a: 1, b: 2}\<close>: the line after
  \<open>end_object\<close> has changed the record already emitted; and for the repeated \<open>end_object\<close>
  it returns the same dict twice (the address 1 twice).
\<close>

theorem end_object_copy_counterexample:
  "spec_load_objects sample_float [''begin_object'', ''a: 1'', ''end_object'', ''b: 2'']
     = Inr [[(''a'', VStr ''1'')]]
   \<and> load_objects_from_mvo sample_float [''begin_object'', ''a: 1'', ''end_object'', ''b: 2'']
     = Inr [[(''a'', VStr ''1''), (''b'', VStr ''2'')]]
   \<and> spec_load_objects sample_float [''begin_object'', ''a: 1'', ''end_object'', ''end_object'']
     = Inr [[(''a'', VStr ''1'')]]
   \<and> load_objects_from_mvo sample_float [''begin_object'', ''a: 1'', ''end_object'', ''end_object'']
     = Inr [[(''a'', VStr ''1'')], [(''a'', VStr ''1'')]]
   \<and> parse_lines sample_float [''begin_object'', ''a: 1'', ''end_object'', ''end_object''] init_pstate
     = Inr \<lparr>heap = [[], [(''a'', VStr ''1'')]], current_object = 1, objects = [1, 1]\<rparr>"
  by (simp add: load_objects_from_mvo_def parse_line_def py_strip_def is_space_def then_do_def
      init_pstate_def setitem_def records_def spec_load_objects_def spec_parse_line_def)

text \<open>
  C2: an input made of blocks, each \<open>begin_object\<close>, field lines that parse,
  \<open>end_object\<close>, yields the records of the blocks with a non-empty body, in the order of
  the blocks: exactly as many records as blocks when every body has a field line, none for
  an empty body, and none for a trailing \<open>begin_object\<close> that is never closed.
\<close>

theorem block_count:
  assumes "py_strip b = ''begin_object''" and "py_strip e = ''end_object''"
    and "\<forall>body \<in> set bodies. \<forall>l \<in> set body. field_entry pf l \<noteq> None"
    and "\<forall>l \<in> set rest. field_entry pf l \<noteq> None"
  shows "load_objects_from_mvo pf (concat (map (mvo_block b e) bodies))
           = Inr (map (block_record pf) (filter (\<lambda>body. body \<noteq> []) bodies))
       \<and> load_objects_from_mvo pf (concat (map (mvo_block b e) bodies) @ b # rest)
           = Inr (map (block_record pf) (filter (\<lambda>body. body \<noteq> []) bodies))
       \<and> ((\<forall>body \<in> set bodies. body \<noteq> []) \<longrightarrow>
            load_objects_from_mvo pf (concat (map (mvo_block b e) bodies))
              = Inr (map (block_record pf) bodies)
            \<and> length (map (block_record pf) bodies) = length bodies)"
proof -
  let ?out = "map (block_record pf) (filter (\<lambda>body. body \<noteq> []) bodies)"
  obtain s' where s': "parse_lines pf (concat (map (mvo_block b e) bodies)) init_pstate = Inr s'"
      "wf_pstate s'" "records s' = records init_pstate @ ?out"
    using blocks_run [OF assms(1,2,3) wf_init] by blast
  have r0: "records init_pstate = []" by (simp add: records_def init_pstate_def)
  have closed: "load_objects_from_mvo pf (concat (map (mvo_block b e) bodies)) = Inr ?out"
    using s' r0 by (simp add: load_objects_from_mvo_def then_do_def)
  have "parse_lines pf (concat (map (mvo_block b e) bodies) @ b # rest) init_pstate
          = parse_lines pf (b # rest) s'"
    using s'(1) by (simp add: parse_lines_append then_do_def)
  also have "\<dots> = Inr (s'\<lparr>heap := heap s' @ [block_record pf rest],
                             current_object := length (heap s')\<rparr>)"
    using open_block_run [OF assms(1,4)] .
  finally have "load_objects_from_mvo pf (concat (map (mvo_block b e) bodies) @ b # rest)
          = Inr (records (s'\<lparr>heap := heap s' @ [block_record pf rest],
                             current_object := length (heap s')\<rparr>))"
    by (simp add: load_objects_from_mvo_def then_do_def)
  then have trailing: "load_objects_from_mvo pf (concat (map (mvo_block b e) bodies) @ b # rest)
          = Inr ?out"
    using open_block_records [OF s'(2)] s'(3) r0 by simp
  have full: "?out = map (block_record pf) bodies" if "\<forall>body \<in> set bodies. body \<noteq> []"
    using that by (simp add: filter_id_conv)
  show ?thesis using closed trailing full by auto
qed

theorem block_count_witness:
  "load_objects_from_mvo sample_float
     [''begin_object\<newline>'', ''instrument_shape: piano_sphere\<newline>'', ''size_duration: 2.0\<newline>'', ''end_object\<newline>'',
      ''begin_object\<newline>'', ''end_object\<newline>'',
      ''begin_object\<newline>'', ''note_color: G4_blue\<newline>'', ''end_object\<newline>'',
      ''begin_object\<newline>'', ''position: 0, 0, 0\<newline>'']
   = Inr [[(''instrument_shape'', VStr ''piano_sphere''), (''size_duration'', VFloat (Finite 2))],
          [(''note_color'', VStr ''G4_blue'')]]"
proof -
  let ?b = "''begin_object\<newline>''" and ?e = "''end_object\<newline>''"
  let ?bodies = "[[''instrument_shape: piano_sphere\<newline>'', ''size_duration: 2.0\<newline>''], [],
                  [''note_color: G4_blue\<newline>'']]"
  let ?rest = "[''position: 0, 0, 0\<newline>'']"
  have b: "py_strip ?b = ''begin_object''" by (simp add: py_strip_def is_space_def)
  have e: "py_strip ?e = ''end_object''" by (simp add: py_strip_def is_space_def)
  have f1: "field_entry sample_float ''instrument_shape: piano_sphere\<newline>''
              = Some (''instrument_shape'', VStr ''piano_sphere'')"
    by (simp add: field_entry_def py_strip_def is_space_def)
  have f2: "field_entry sample_float ''size_duration: 2.0\<newline>'' = Some (''size_duration'', VFloat (Finite 2))"
    by (simp add: field_entry_def py_strip_def is_space_def sample_float_def)
  have f3: "field_entry sample_float ''note_color: G4_blue\<newline>'' = Some (''note_color'', VStr ''G4_blue'')"
    by (simp add: field_entry_def py_strip_def is_space_def)
  have sp: "py_split '', '' ''0, 0, 0'' = [''0'', ''0'', ''0'']"
    by (simp add: py_split.simps [of "'', ''"])
  have f4: "field_entry sample_float ''position: 0, 0, 0\<newline>'' \<noteq> None"
    by (simp add: field_entry_def py_strip_def is_space_def sample_float_def sp)
  have bodies: "\<forall>body \<in> set ?bodies. \<forall>l \<in> set body. field_entry sample_float l \<noteq> None"
    using f1 f2 f3 by simp
  have rest: "\<forall>l \<in> set ?rest. field_entry sample_float l \<noteq> None"
    using f4 by simp
  show ?thesis
    using block_count [OF b e bodies rest] f1 f2 f3
    by (simp add: mvo_block_def block_record_def store_field_def)
qed

text \<open>
  C9: when the input contains a \<open>position\<close> line with a non-numeric component or a
  \<open>size_duration\<close> line with a non-numeric value, the parse raises ValueError, whatever
  the other lines are; no record list is returned, and neither the musical nor the spatial
  generation produces a result.
\<close>

theorem malformed_field_aborts:
  assumes "l \<in> set ls" and "malformed_field pf l"
  shows "load_objects_from_mvo pf ls = Inl ValueError
       \<and> create_midi_from_mvo pf ls = Inl ValueError
       \<and> create_vtk_from_mvo pf gc ls = Inl ValueError"
  using parse_lines_malformed [OF assms, of init_pstate]
  by (simp add: load_objects_from_mvo_def create_midi_from_mvo_def create_vtk_from_mvo_def then_do_def)

theorem malformed_field_aborts_witness:
  "load_objects_from_mvo sample_float
     [''begin_object\<newline>'', ''size_duration: big\<newline>'', ''end_object\<newline>''] = Inl ValueError
   \<and> create_midi_from_mvo sample_float
     [''begin_object\<newline>'', ''size_duration: big\<newline>'', ''end_object\<newline>''] = Inl ValueError
   \<and> create_vtk_from_mvo sample_float sample_colors
     [''begin_object\<newline>'', ''size_duration: big\<newline>'', ''end_object\<newline>''] = Inl ValueError"
proof -
  have m: "malformed_field sample_float ''size_duration: big\<newline>''"
    by (simp add: malformed_field_def py_strip_def is_space_def sample_float_def)
  have i: "''size_duration: big\<newline>''
             \<in> set [''begin_object\<newline>'', ''size_duration: big\<newline>'', ''end_object\<newline>'']"
    by simp
  show ?thesis
    using malformed_field_aborts [OF i m, of sample_colors] by blast
qed

text \<open>
  C3: a line with a colon that is not followed by a space passes the guard
  \<^verbatim>\<open>':' in line\<close>, and the unpacking of \<^verbatim>\<open>line.split(': ', 1)\<close> then raises ValueError:
  on the input \<^verbatim>\<open>key:value\<close> the parse fails, where the parser of the specification
  ignores the line and returns no record.
\<close>

theorem bare_colon_line_raises:
  "load_objects_from_mvo pf [''key:value''] = Inl ValueError
   \<and> spec_load_objects pf [''key:value''] = Inr []"
  by (simp add: load_objects_from_mvo_def parse_line_def py_strip_def is_space_def then_do_def
      spec_load_objects_def spec_parse_line_def)

section \<open>Properties of the note resolver\<close>

text \<open>
  C7: the table of \<open>note_to_midi\<close> has the eleven diatonic names from C4 to F5, each
  mapped to its standard MIDI pitch number (C4 is 60, G4 is 67), and every token outside
  the table resolves to 60.
\<close>

theorem note_to_midi_table:
  "map fst note_mappings =
     [''C4'', ''D4'', ''E4'', ''F4'', ''G4'', ''A4'', ''B4'', ''C5'', ''D5'', ''E5'', ''F5'']
   \<and> (\<forall>name \<in> set (map fst note_mappings). standard_pitch name = Some (note_to_midi name))
   \<and> note_to_midi ''C4'' = 60 \<and> note_to_midi ''G4'' = 67
   \<and> (\<forall>token. token \<notin> set (map fst note_mappings) \<longrightarrow> note_to_midi token = 60)"
proof -
  have keys: "map fst note_mappings =
     [''C4'', ''D4'', ''E4'', ''F4'', ''G4'', ''A4'', ''B4'', ''C5'', ''D5'', ''E5'', ''F5'']"
    by (simp add: note_mappings_def)
  have std: "\<forall>name \<in> set (map fst note_mappings). standard_pitch name = Some (note_to_midi name)"
    unfolding keys
    by (simp add: note_to_midi_def note_mappings_def standard_pitch_def semitone_def octave_def)
  have vals: "note_to_midi ''C4'' = 60 \<and> note_to_midi ''G4'' = 67"
    by (simp add: note_to_midi_def note_mappings_def)
  have dflt: "note_to_midi token = 60" if "token \<notin> set (map fst note_mappings)" for token
  proof -
    have "map_of note_mappings token = None"
      using that by (simp add: map_of_eq_None_iff)
    then show ?thesis by (simp add: note_to_midi_def)
  qed
  show ?thesis using keys std vals dflt by blast
qed

theorem note_to_midi_table_witness:
  "''Z9'' \<notin> set (map fst note_mappings) \<and> note_to_midi ''Z9'' = 60
   \<and> ''F5'' \<in> set (map fst note_mappings) \<and> standard_pitch ''F5'' = Some (note_to_midi ''F5'')"
proof -
  have a: "''Z9'' \<notin> set (map fst note_mappings)" by (simp add: note_mappings_def)
  have b: "''F5'' \<in> set (map fst note_mappings)" by (simp add: note_mappings_def)
  show ?thesis using note_to_midi_table a b by blast
qed

section \<open>Properties of the score builder\<close>


lemma then_do_Inl: "then_do (Inl e) f = Inl e"
  by (simp add: then_do_def)


lemma split_first_single:
  "split_first [c] s =
     (if c \<in> set s then Some (takeWhile (\<lambda>x. x \<noteq> c) s, tl (dropWhile (\<lambda>x. x \<noteq> c) s)) else None)"
  by (induction s) auto

lemma takeWhile_absent: "c \<notin> set s \<Longrightarrow> takeWhile (\<lambda>x. x \<noteq> c) s = s"
  by (induction s) auto

lemma py_split_underscore_hd:
  "item (py_split ''_'' s) 0 = Inr (underscore_prefix s)"
  by (simp add: py_split.simps [of "''_''" s] split_first_single item_def underscore_prefix_def
      takeWhile_absent)

lemma py_split_no_underscore:
  "CHR ''_'' \<notin> set s \<Longrightarrow> py_split ''_'' s = [s]"
  by (simp add: py_split.simps [of "''_''" s] split_first_single)



lemma first_seen_set [simp]: "set (first_seen xs) = set xs"
  by (simp add: first_seen_def)

lemma first_seen_distinct [simp]: "distinct (first_seen xs)"
  by (simp add: first_seen_def)








lemma midi_step_fields:
  assumes "map_of ob ''instrument_shape'' = Some (VStr s)"
    and "map_of ob ''note_color'' = Some (VStr c)"
    and "map_of ob ''size_duration'' = Some (VFloat (Finite r))"
    and "map_of (track_details (new_track (underscore_prefix s) st)) (underscore_prefix s) = Some track"
  shows "midi_step ob st =
     Inr ((new_track (underscore_prefix s) st)
            \<lparr>midi := midi (new_track (underscore_prefix s) st) @
               [ProgramChange track 0 0 1,
                Note track 0 (note_to_midi (underscore_prefix c)) 0 (truncated r) 100]\<rparr>)"
  using assms py_split_underscore_hd [of s] py_split_underscore_hd [of c]
  by (simp add: midi_step_def getitem_def split_underscore_def then_do_def py_int_def
      int_of_float_def truncated_def Let_def)



lemma midi_loop_append:
  "midi_loop (xs @ ys) st = then_do (midi_loop xs st) (midi_loop ys)"
  by (induction xs arbitrary: st) (auto simp: then_do_def split: sum.splits)




lemma new_track_lookup:
  "\<exists>track. map_of (track_details (new_track i st)) i = Some track"
  by (cases "map_of (track_details st) i") (simp_all add: new_track_def update_conv')

lemma floor_2_9: "\<lfloor>6530219459687219 / 2251799813685248 :: rat\<rfloor> = 2"
  by (rule floor_unique) simp_all

lemma floor_1_9: "\<lfloor>4278419646001971 / 2251799813685248 :: rat\<rfloor> = 1"
  by (rule floor_unique) simp_all

lemma floor_0_1: "\<lfloor>3602879701896397 / 36028797018963968 :: rat\<rfloor> = 0"
  by (rule floor_unique) simp_all


lemma midi_step_lacks:
  assumes "typed_obj ob" and "lacks_required ob"
  shows "midi_step ob st = Inl KeyError"
proof (cases "map_of ob ''instrument_shape''")
  case None
  then show ?thesis by (simp add: midi_step_def getitem_def then_do_def)
next
  case (Some v)
  then obtain s where s: "map_of ob ''instrument_shape'' = Some (VStr s)"
    using typed_obj_str [OF assms(1) Some] by auto
  obtain track where lk:
    "map_of (track_details (new_track (underscore_prefix s) st)) (underscore_prefix s) = Some track"
    using new_track_lookup by blast
  show ?thesis
  proof (cases "map_of ob ''note_color''")
    case None
    then show ?thesis
      using s lk py_split_underscore_hd [of s]
      by (simp add: midi_step_def getitem_def split_underscore_def then_do_def Let_def)
  next
    case (Some w)
    then obtain c where c: "map_of ob ''note_color'' = Some (VStr c)"
      using typed_obj_str [OF assms(1) Some] by auto
    have "map_of ob ''size_duration'' = None"
      using assms(2) s c by (simp add: lacks_required_def)
    then show ?thesis
      using s c lk py_split_underscore_hd [of s] py_split_underscore_hd [of c]
      by (simp add: midi_step_def getitem_def split_underscore_def then_do_def Let_def)
  qed
qed

lemma midi_loop_hits_failure:
  assumes "\<And>st. midi_step ob st = Inl e"
  shows "\<exists>e'. midi_loop (pre @ ob # post) st = Inl e'"
  using assms
  by (cases "midi_loop pre st") (simp_all add: midi_loop_append then_do_def)



text \<open>
  C5: for a record whose \<open>size_duration\<close> is a (finite) float \<open>d \<ge> 0\<close>, the step of the
  score builder succeeds and the note it adds has duration \<open>\<lfloor>d\<rfloor>\<close>; the floats written
  2.9, 1.9 and 0.1 give the durations 2, 1 and 0.
\<close>

theorem duration_truncates:
  assumes "map_of ob ''instrument_shape'' = Some (VStr s)"
    and "map_of ob ''note_color'' = Some (VStr c)"
    and "map_of ob ''size_duration'' = Some (VFloat (Finite d))"
    and "0 \<le> d"
  shows "\<exists>st' track pitch. midi_step ob st = Inr st'
     \<and> midi st' = midi (new_track (underscore_prefix s) st)
                    @ [ProgramChange track 0 0 1, Note track 0 pitch 0 \<lfloor>d\<rfloor> 100]"
proof -
  obtain track where lk:
    "map_of (track_details (new_track (underscore_prefix s) st)) (underscore_prefix s) = Some track"
    using new_track_lookup by blast
  have "truncated d = \<lfloor>d\<rfloor>" using assms(4) by (simp add: truncated_def)
  then show ?thesis
    using midi_step_fields [OF assms(1,2,3) lk] by simp
qed

theorem duration_truncates_witness:
  "(\<exists>st' track pitch.
      midi_step [(''instrument_shape'', VStr ''piano_sphere''), (''note_color'', VStr ''C4_red''),
                 (''size_duration'', VFloat (Finite (6530219459687219 / 2251799813685248)))]
        init_midi_state = Inr st'
      \<and> midi st' = [TrackName 0 0 ''piano'', Tempo 0 0 120,
                    ProgramChange track 0 0 1, Note track 0 pitch 0 2 100])
   \<and> (\<exists>st' track pitch.
      midi_step [(''instrument_shape'', VStr ''piano_sphere''), (''note_color'', VStr ''C4_red''),
                 (''size_duration'', VFloat (Finite (4278419646001971 / 2251799813685248)))]
        init_midi_state = Inr st'
      \<and> midi st' = [TrackName 0 0 ''piano'', Tempo 0 0 120,
                    ProgramChange track 0 0 1, Note track 0 pitch 0 1 100])
   \<and> (\<exists>st' track pitch.
      midi_step [(''instrument_shape'', VStr ''piano_sphere''), (''note_color'', VStr ''C4_red''),
                 (''size_duration'', VFloat (Finite (3602879701896397 / 36028797018963968)))]
        init_midi_state = Inr st'
      \<and> midi st' = [TrackName 0 0 ''piano'', Tempo 0 0 120,
                    ProgramChange track 0 0 1, Note track 0 pitch 0 0 100])"
proof -
  let ?ob = "\<lambda>d. [(''instrument_shape'', VStr ''piano_sphere''), (''note_color'', VStr ''C4_red''),
                 (''size_duration'', VFloat (Finite d))]"
  have nt: "midi (new_track (underscore_prefix ''piano_sphere'') init_midi_state)
              = [TrackName 0 0 ''piano'', Tempo 0 0 120]"
    by (simp add: new_track_def init_midi_state_def underscore_prefix_def)
  have a: "map_of (?ob d) ''instrument_shape'' = Some (VStr ''piano_sphere'')"
     and b: "map_of (?ob d) ''note_color'' = Some (VStr ''C4_red'')"
     and c: "map_of (?ob d) ''size_duration'' = Some (VFloat (Finite d))" for d
    by simp_all
  have p1: "(0::rat) \<le> 6530219459687219 / 2251799813685248" by simp
  have p2: "(0::rat) \<le> 4278419646001971 / 2251799813685248" by simp
  have p3: "(0::rat) \<le> 3602879701896397 / 36028797018963968" by simp
  show ?thesis
    using duration_truncates [OF a b c p1, of init_midi_state]
      duration_truncates [OF a b c p2, of init_midi_state]
      duration_truncates [OF a b c p3, of init_midi_state]
    unfolding nt floor_2_9 floor_1_9 floor_0_1 by simp
qed



text \<open>
  C10: the parser returns records without regard to the fields they hold. When a
  record it returned lacks \<open>instrument_shape\<close>, \<open>note_color\<close> or \<open>size_duration\<close>, the
  musical generation fails, and the failure is a KeyError whenever the loop reaches that
  record.
\<close>

theorem missing_field_key_error:
  assumes "load_objects_from_mvo pf ls = Inr (pre @ ob # post)" and "lacks_required ob"
  shows "(\<exists>e. create_midi_from_mvo pf ls = Inl e)
       \<and> (midi_loop pre init_midi_state = Inr st \<longrightarrow> create_midi_from_mvo pf ls = Inl KeyError)"
proof -
  have typed: "typed_obj ob" using parse_lines_typed [OF assms(1)] by simp
  have step: "midi_step ob st = Inl KeyError" for st
    using midi_step_lacks [OF typed assms(2)] .
  have cm: "create_midi_from_mvo pf ls = build_midi (pre @ ob # post)"
    using assms(1) by (simp add: create_midi_from_mvo_def then_do_def)
  have fails: "\<exists>e. create_midi_from_mvo pf ls = Inl e"
    using midi_loop_hits_failure [of ob KeyError pre post init_midi_state] step
    unfolding cm by (auto simp: build_midi_def then_do_def)
  have key: "create_midi_from_mvo pf ls = Inl KeyError" if "midi_loop pre init_midi_state = Inr st"
    unfolding cm using that step [of st]
    by (simp add: build_midi_def midi_loop_append then_do_def)
  show ?thesis using fails key by blast
qed

theorem missing_field_key_error_witness:
  "create_midi_from_mvo sample_float
     [''begin_object\<newline>'', ''instrument_shape: piano_sphere\<newline>'', ''size_duration: 2.0\<newline>'',
      ''end_object\<newline>''] = Inl KeyError"
proof -
  let ?ls = "[''begin_object\<newline>'', ''instrument_shape: piano_sphere\<newline>'', ''size_duration: 2.0\<newline>'',
      ''end_object\<newline>'']"
  let ?ob = "[(''instrument_shape'', VStr ''piano_sphere''), (''size_duration'', VFloat (Finite 2))]"
  have load: "load_objects_from_mvo sample_float ?ls = Inr ([] @ ?ob # [])"
    by (simp add: load_objects_from_mvo_def parse_line_def py_strip_def is_space_def then_do_def
      init_pstate_def setitem_def records_def sample_float_def)
  have lacks: "lacks_required ?ob" by (simp add: lacks_required_def)
  have reach: "midi_loop [] init_midi_state = Inr init_midi_state" by simp
  show ?thesis
    using missing_field_key_error [OF load lacks, of init_midi_state] reach by blast
qed


section \<open>Properties of the scene builder\<close>












lemma vtk_step_no_underscore:
  assumes "map_of ob ''instrument_shape'' = Some (VStr s)" and "CHR ''_'' \<notin> set s"
  shows "vtk_step gc ob = Inl IndexError"
  using assms py_split_no_underscore [OF assms(2)]
  by (simp add: vtk_step_def getitem_def split_underscore_def item_def then_do_def)

text \<open>
  C4: a record whose \<open>instrument_shape\<close> has no underscore is not skipped: the split has
  one element, \<^verbatim>\<open>[1]\<close> raises IndexError, and the spatial generation fails.
\<close>

theorem missing_shape_index_error:
  "create_vtk_from_mvo sample_float sample_colors
     [''begin_object\<newline>'', ''instrument_shape: piano\<newline>'', ''note_color: C4_red\<newline>'',
      ''size_duration: 1\<newline>'', ''position: 0, 0, 0\<newline>'', ''end_object\<newline>''] = Inl IndexError"
  by code_simp


end
